theory Spec2Isabelle
  imports Main
begin

section \<open>Results, sizes and raw memory\<close>

text \<open>
  The container of \<^verbatim>\<open>simple_vector.h\<close> works on raw storage through pointers
  (\<^verbatim>\<open>Iterator = Type*\<close>), so the model keeps an explicit heap of buffers. A failed
  \<^verbatim>\<open>assert\<close>, the exception of \<^verbatim>\<open>At\<close> and every access that C++ leaves undefined
  (null, released or out-of-bounds storage) are values of \<open>error\<close>.
\<close>

datatype error = AssertionFailed | OutOfRange | UndefinedBehavior

fun bind_res :: "error + 'a \<Rightarrow> ('a \<Rightarrow> error + 'b) \<Rightarrow> error + 'b" where
  "bind_res (Inl e) f = Inl e"
| "bind_res (Inr x) f = f x"

text \<open>\<^verbatim>\<open>size_t\<close> is taken as 64 bits wide; \<open>wrap\<close> is its arithmetic modulo \<open>2 ^ 64\<close>.\<close>

definition wrap :: "nat \<Rightarrow> nat" where
  "wrap n = n mod 2 ^ 64"

definition dec :: "nat \<Rightarrow> nat" where
  \<comment> \<open>\<^verbatim>\<open>--size\<close> on a \<^verbatim>\<open>size_t\<close>\<close>
  "dec n = (if n = 0 then 2 ^ 64 - 1 else n - 1)"

text \<open>
  A slot of a buffer holds \<open>Some x\<close> once a value was written to it and \<open>None\<close> while
  it is raw (allocated, never written). A heap is the list of all buffers ever
  allocated, a released buffer being \<open>None\<close>; the address of a buffer is its index.
\<close>

type_synonym 'a slot = "'a option"
type_synonym 'a buffer = "'a slot list"
type_synonym 'a heap = "'a buffer option list"

text \<open>
  A pointer \<^verbatim>\<open>Type*\<close>: the buffer it points into (\<open>None\<close> for \<^verbatim>\<open>nullptr\<close>) and the
  element offset from the start of that buffer.
\<close>

datatype ptr = Ptr (base: "nat option") (offset: nat)

definition ptr_add :: "ptr \<Rightarrow> nat \<Rightarrow> ptr" where
  "ptr_add p n = Ptr (base p) (offset p + n)"

definition ptr_sub :: "ptr \<Rightarrow> nat \<Rightarrow> error + ptr" where
  \<comment> \<open>a pointer before the start of its buffer must not be formed\<close>
  "ptr_sub p n =
     (if n \<le> offset p then Inr (Ptr (base p) (offset p - n)) else Inl UndefinedBehavior)"

definition ptr_less :: "ptr \<Rightarrow> ptr \<Rightarrow> bool" where
  \<comment> \<open>\<^verbatim>\<open>p < q\<close>; pointers into different buffers compare as false here\<close>
  "ptr_less p q \<longleftrightarrow> base p = base q \<and> offset p < offset q"

definition ptr_ge :: "ptr \<Rightarrow> ptr \<Rightarrow> bool" where
  \<comment> \<open>\<^verbatim>\<open>p >= q\<close>\<close>
  "ptr_ge p q \<longleftrightarrow> base p = base q \<and> offset q \<le> offset p"

definition std_distance :: "ptr \<Rightarrow> ptr \<Rightarrow> error + nat" where
  \<comment> \<open>\<^verbatim>\<open>std::distance(first, last)\<close>, used only where \<open>first\<close> is the start of a buffer\<close>
  "std_distance first lst =
     (if base first = base lst \<and> offset first \<le> offset lst
      then Inr (offset lst - offset first) else Inl UndefinedBehavior)"

definition buffer_at :: "'a heap \<Rightarrow> nat option \<Rightarrow> 'a buffer option" where
  "buffer_at h b =
     (case b of None \<Rightarrow> None
      | Some a \<Rightarrow> if a < length h then h ! a else None)"

definition load :: "'a heap \<Rightarrow> ptr \<Rightarrow> error + 'a slot" where
  \<comment> \<open>\<^verbatim>\<open>*p\<close> read\<close>
  "load h p =
     (case buffer_at h (base p) of None \<Rightarrow> Inl UndefinedBehavior
      | Some b \<Rightarrow> if offset p < length b then Inr (b ! offset p) else Inl UndefinedBehavior)"

definition store :: "ptr \<Rightarrow> 'a slot \<Rightarrow> 'a heap \<Rightarrow> error + 'a heap" where
  \<comment> \<open>\<^verbatim>\<open>*p = x\<close>\<close>
  "store p x h =
     (case base p of None \<Rightarrow> Inl UndefinedBehavior
      | Some a \<Rightarrow>
          (case buffer_at h (Some a) of None \<Rightarrow> Inl UndefinedBehavior
           | Some b \<Rightarrow>
               if offset p < length b then Inr (h[a := Some (b[offset p := x])])
               else Inl UndefinedBehavior))"

section \<open>The standard algorithms the container calls\<close>

text \<open>
  Each algorithm is the loop of its reference implementation, run for
  \<open>last - first\<close> steps. Moving an element is modelled as copying it: the source slot
  keeps its content.
\<close>

primrec fill_loop :: "nat \<Rightarrow> ptr \<Rightarrow> 'a slot \<Rightarrow> 'a heap \<Rightarrow> error + 'a heap" where
  "fill_loop 0 p x h = Inr h"
| "fill_loop (Suc n) p x h =
     bind_res (store p x h) (\<lambda>h'. fill_loop n (ptr_add p 1) x h')"

definition std_fill :: "ptr \<Rightarrow> ptr \<Rightarrow> 'a \<Rightarrow> 'a heap \<Rightarrow> error + 'a heap" where
  "std_fill first lst x h =
     (if base first = base lst \<and> offset first \<le> offset lst
      then fill_loop (offset lst - offset first) first (Some x) h
      else Inl UndefinedBehavior)"

definition std_generate :: "ptr \<Rightarrow> ptr \<Rightarrow> (unit \<Rightarrow> 'a) \<Rightarrow> 'a heap \<Rightarrow> error + 'a heap" where
  "std_generate first lst g h =
     (if base first = base lst \<and> offset first \<le> offset lst
      then fill_loop (offset lst - offset first) first (Some (g ())) h
      else Inl UndefinedBehavior)"

primrec copy_loop :: "nat \<Rightarrow> ptr \<Rightarrow> ptr \<Rightarrow> 'a heap \<Rightarrow> error + 'a heap" where
  "copy_loop 0 s d h = Inr h"
| "copy_loop (Suc n) s d h =
     bind_res (load h s) (\<lambda>x.
     bind_res (store d x h) (\<lambda>h'.
     copy_loop n (ptr_add s 1) (ptr_add d 1) h'))"

definition std_copy :: "ptr \<Rightarrow> ptr \<Rightarrow> ptr \<Rightarrow> 'a heap \<Rightarrow> error + 'a heap" where
  "std_copy first lst d_first h =
     (if base first = base lst \<and> offset first \<le> offset lst
      then copy_loop (offset lst - offset first) first d_first h
      else Inl UndefinedBehavior)"

definition std_move :: "ptr \<Rightarrow> ptr \<Rightarrow> ptr \<Rightarrow> 'a heap \<Rightarrow> error + 'a heap" where
  "std_move first lst d_first h = std_copy first lst d_first h"

primrec copy_list :: "'a list \<Rightarrow> ptr \<Rightarrow> 'a heap \<Rightarrow> error + 'a heap" where
  \<comment> \<open>\<^verbatim>\<open>std::copy\<close> out of a \<^verbatim>\<open>std::initializer_list\<close>\<close>
  "copy_list [] d h = Inr h"
| "copy_list (x # xs) d h =
     bind_res (store d (Some x) h) (\<lambda>h'. copy_list xs (ptr_add d 1) h')"

primrec backward_loop :: "nat \<Rightarrow> ptr \<Rightarrow> ptr \<Rightarrow> 'a heap \<Rightarrow> error + 'a heap" where
  \<comment> \<open>\<^verbatim>\<open>while (first != last) *(--d_last) = std::move(*(--last));\<close>\<close>
  "backward_loop 0 l d h = Inr h"
| "backward_loop (Suc n) l d h =
     bind_res (ptr_sub l 1) (\<lambda>l'.
     bind_res (ptr_sub d 1) (\<lambda>d'.
     bind_res (load h l') (\<lambda>x.
     bind_res (store d' x h) (\<lambda>h'.
     backward_loop n l' d' h'))))"

definition std_move_backward :: "ptr \<Rightarrow> ptr \<Rightarrow> ptr \<Rightarrow> 'a heap \<Rightarrow> error + 'a heap" where
  "std_move_backward first lst d_last h =
     (if base first = base lst \<and> offset first \<le> offset lst
      then backward_loop (offset lst - offset first) lst d_last h
      else Inl UndefinedBehavior)"

definition std_exchange :: "ptr \<Rightarrow> 'a \<Rightarrow> 'a heap \<Rightarrow> error + ('a slot \<times> 'a heap)" where
  \<comment> \<open>\<^verbatim>\<open>std::exchange(obj, new_value)\<close>: stores the new value, returns the old one\<close>
  "std_exchange p x h =
     bind_res (load h p) (\<lambda>old.
     bind_res (store p (Some x) h) (\<lambda>h'. Inr (old, h')))"

section \<open>The owning array pointer\<close>

text \<open>
  Modelled from the spec: \<^verbatim>\<open>ArrayPtr\<close> of \<^verbatim>\<open>array_ptr.h\<close>, which is not part of the
  sources. The specification describes it as the owned buffer with
  \<^verbatim>\<open>allocate(capacity)\<close> giving \<open>capacity\<close> raw slots (capacity 0 gives the empty,
  unallocated buffer), \<^verbatim>\<open>get()\<close> the pointer to slot 0, a constant-time \<^verbatim>\<open>swap\<close>
  of the owned storage, \<^verbatim>\<open>release()\<close> giving the storage up to the caller, and
  the scoped release of the storage when the owner goes out of scope. An
  \<^verbatim>\<open>ArrayPtr\<close> is the raw pointer it owns: \<open>None\<close> is \<^verbatim>\<open>nullptr\<close>.
\<close>

type_synonym ArrayPtr = "nat option"

definition ArrayPtr_new :: "nat \<Rightarrow> 'a heap \<Rightarrow> ArrayPtr \<times> 'a heap" where
  \<comment> \<open>Modelled from the spec: \<^verbatim>\<open>ArrayPtr(size)\<close>, the allocation of \<open>n\<close> raw slots\<close>
  "ArrayPtr_new n h =
     (if n = 0 then (None, h) else (Some (length h), h @ [Some (replicate n None)]))"

definition Get :: "ArrayPtr \<Rightarrow> ptr" where
  \<comment> \<open>Modelled from the spec: \<^verbatim>\<open>ArrayPtr::Get\<close>, the pointer to slot 0\<close>
  "Get a = Ptr a 0"

definition ArrayPtr_swap :: "ArrayPtr \<Rightarrow> ArrayPtr \<Rightarrow> ArrayPtr \<times> ArrayPtr" where
  \<comment> \<open>Modelled from the spec: \<^verbatim>\<open>ArrayPtr::swap\<close>; the pair is (this, other) afterwards\<close>
  "ArrayPtr_swap a b = (b, a)"

definition release_buffer :: "ArrayPtr \<Rightarrow> 'a heap \<Rightarrow> error + 'a heap" where
  \<comment> \<open>Modelled from the spec: giving the owned storage back; a null pointer owns none\<close>
  "release_buffer a h =
     (case a of None \<Rightarrow> Inr h
      | Some i \<Rightarrow>
          (case buffer_at h (Some i) of None \<Rightarrow> Inl UndefinedBehavior
           | Some b \<Rightarrow> Inr (h[i := None])))"

section \<open>SimpleVector\<close>

record ReserveProxyObj =
  proxy_size :: nat

definition Reserve_proxy :: "nat \<Rightarrow> ReserveProxyObj" where
  \<comment> \<open>the free function \<^verbatim>\<open>Reserve(capacity_to_reserve)\<close>\<close>
  "Reserve_proxy capacity_to_reserve = \<lparr>proxy_size = capacity_to_reserve\<rparr>"

record SimpleVector =
  capacity :: nat
  size_v :: nat
  array :: ArrayPtr

definition begin_v :: "SimpleVector \<Rightarrow> ptr" where
  "begin_v v = Get (array v)"

definition end_v :: "SimpleVector \<Rightarrow> ptr" where
  "end_v v = ptr_add (Get (array v)) (size_v v)"

definition cbegin :: "SimpleVector \<Rightarrow> ptr" where
  "cbegin v = Get (array v)"

definition cend :: "SimpleVector \<Rightarrow> ptr" where
  "cend v = ptr_add (Get (array v)) (size_v v)"

definition SimpleVector_default :: SimpleVector where
  \<comment> \<open>\<^verbatim>\<open>SimpleVector() noexcept = default\<close> with the member initializers\<close>
  "SimpleVector_default = \<lparr>capacity = 0, size_v = 0, array = None\<rparr>"

definition swap :: "SimpleVector \<Rightarrow> SimpleVector \<Rightarrow> SimpleVector \<times> SimpleVector" where
  \<comment> \<open>\<^verbatim>\<open>this->swap(other)\<close> for two distinct objects; the pair is (this, other) afterwards\<close>
  "swap v other =
     (let (a, b) = ArrayPtr_swap (array v) (array other) in
      (v\<lparr>array := a, size_v := size_v other, capacity := capacity other\<rparr>,
       other\<lparr>array := b, size_v := size_v v, capacity := capacity v\<rparr>))"

definition destroy :: "SimpleVector \<Rightarrow> 'a heap \<Rightarrow> error + 'a heap" where
  \<comment> \<open>\<^verbatim>\<open>~SimpleVector()\<close>: the owned buffer is released\<close>
  "destroy v h = release_buffer (array v) h"

definition SimpleVector_size :: "nat \<Rightarrow> 'a::default heap \<Rightarrow> error + (SimpleVector \<times> 'a heap)" where
  \<comment> \<open>\<^verbatim>\<open>explicit SimpleVector(size_t size)\<close>\<close>
  "SimpleVector_size n h =
     (let (a, h1) = ArrayPtr_new n h;
          v = \<lparr>capacity = n, size_v = n, array = a\<rparr>
      in bind_res (std_fill (begin_v v) (end_v v) default h1) (\<lambda>h2. Inr (v, h2)))"

definition SimpleVector_fill :: "nat \<Rightarrow> 'a \<Rightarrow> 'a heap \<Rightarrow> error + (SimpleVector \<times> 'a heap)" where
  \<comment> \<open>\<^verbatim>\<open>SimpleVector(size_t size, const Type& value)\<close>\<close>
  "SimpleVector_fill n x h =
     (let (a, h1) = ArrayPtr_new n h;
          v = \<lparr>capacity = n, size_v = n, array = a\<rparr>
      in bind_res (std_fill (begin_v v) (end_v v) x h1) (\<lambda>h2. Inr (v, h2)))"

definition SimpleVector_reserve :: "ReserveProxyObj \<Rightarrow> 'a heap \<Rightarrow> SimpleVector \<times> 'a heap" where
  \<comment> \<open>\<^verbatim>\<open>explicit SimpleVector(ReserveProxyObj capacity)\<close>\<close>
  "SimpleVector_reserve obj h =
     (let (a, h1) = ArrayPtr_new (proxy_size obj) h
      in (\<lparr>capacity = proxy_size obj, size_v = 0, array = a\<rparr>, h1))"

definition SimpleVector_init :: "'a list \<Rightarrow> 'a heap \<Rightarrow> error + (SimpleVector \<times> 'a heap)" where
  \<comment> \<open>\<^verbatim>\<open>SimpleVector(std::initializer_list<Type> init)\<close>\<close>
  "SimpleVector_init init h =
     (let (a, h1) = ArrayPtr_new (length init) h;
          v = \<lparr>capacity = length init, size_v = length init, array = a\<rparr>
      in bind_res (copy_list init (begin_v v) h1) (\<lambda>h2. Inr (v, h2)))"

definition SimpleVector_copy :: "SimpleVector \<Rightarrow> 'a heap \<Rightarrow> error + (SimpleVector \<times> 'a heap)" where
  \<comment> \<open>\<^verbatim>\<open>SimpleVector(const SimpleVector& other)\<close>\<close>
  "SimpleVector_copy other h =
     (let (a, h1) = ArrayPtr_new (size_v other) h;
          v = \<lparr>capacity = size_v other, size_v = size_v other, array = a\<rparr>
      in bind_res (std_copy (begin_v other) (end_v other) (begin_v v) h1) (\<lambda>h2. Inr (v, h2)))"

definition SimpleVector_move :: "SimpleVector \<Rightarrow> SimpleVector \<times> SimpleVector" where
  \<comment> \<open>\<^verbatim>\<open>SimpleVector(SimpleVector&& other)\<close>; the pair is (the new vector, other afterwards)\<close>
  "SimpleVector_move other = swap SimpleVector_default other"

definition assign :: "SimpleVector \<Rightarrow> SimpleVector \<Rightarrow> 'a::default heap \<Rightarrow> error + (SimpleVector \<times> 'a heap)" where
  \<comment> \<open>\<^verbatim>\<open>operator=(const SimpleVector& rhs)\<close> on the vector \<open>v\<close>, a different object from \<open>rhs\<close>\<close>
  "assign rhs v h =
     bind_res (SimpleVector_size (size_v rhs) h) (\<lambda>(tmp, h1).
     bind_res (std_copy (begin_v rhs) (end_v rhs) (begin_v tmp) h1) (\<lambda>h2.
     let (v1, tmp1) = swap v tmp;
         v2 = v1\<lparr>capacity := capacity rhs\<rparr>;
         v3 = v2\<lparr>size_v := size_v rhs\<rparr>
     in bind_res (destroy tmp1 h2) (\<lambda>h3. Inr (v3, h3))))"

definition Reserve :: "ReserveProxyObj \<Rightarrow> SimpleVector \<Rightarrow> 'a::default heap \<Rightarrow> error + (SimpleVector \<times> 'a heap)" where
  "Reserve obj v h =
     (if proxy_size obj < capacity v then Inr (v, h)
      else
        bind_res (SimpleVector_size (proxy_size obj) h) (\<lambda>(tmp, h1).
        bind_res (std_move (begin_v v) (end_v v) (begin_v tmp) h1) (\<lambda>h2.
        let old_size = size_v v;
            (v1, tmp1) = swap v tmp;
            v2 = v1\<lparr>size_v := old_size\<rparr>
        in bind_res (destroy tmp1 h2) (\<lambda>h3. Inr (v2, h3)))))"

definition Resize :: "nat \<Rightarrow> SimpleVector \<Rightarrow> 'a::default heap \<Rightarrow> error + (SimpleVector \<times> 'a heap)" where
  "Resize new_size v h =
     (if new_size \<le> size_v v then Inr (v\<lparr>size_v := new_size\<rparr>, h)
      else if new_size < capacity v then Inr (v\<lparr>size_v := new_size\<rparr>, h)
      else
        let new_capacity = max new_size (wrap (capacity v * 2));
            (new_items, h1) = ArrayPtr_new new_capacity h
        in
        bind_res (std_move (begin_v v) (end_v v) (Get new_items) h1) (\<lambda>h2.
        bind_res (std_generate (ptr_add (Get new_items) (size_v v))
                    (ptr_add (Get new_items) new_size) (\<lambda>_. default) h2) (\<lambda>h3.
        let v1 = v\<lparr>capacity := new_capacity\<rparr>;
            v2 = v1\<lparr>size_v := new_size\<rparr>;
            (a, new_items1) = ArrayPtr_swap (array v2) new_items
        in bind_res (release_buffer new_items1 h3) (\<lambda>h4. Inr (v2\<lparr>array := a\<rparr>, h4)))))"

definition Insert :: "ptr \<Rightarrow> 'a \<Rightarrow> SimpleVector \<Rightarrow> 'a::default heap \<Rightarrow> error + (ptr \<times> SimpleVector \<times> 'a heap)" where
  \<comment> \<open>\<^verbatim>\<open>Iterator Insert(ConstIterator pos, const Type& value)\<close>\<close>
  "Insert pos x v h =
     (if \<not> (ptr_ge pos (begin_v v) \<and> ptr_less pos (end_v v)) then Inl AssertionFailed
      else
        let iter = pos in
        bind_res (Resize (wrap (size_v v + 1)) v h) (\<lambda>(v1, h1).
        bind_res (std_move_backward iter (end_v v1) (ptr_add (end_v v1) 1) h1) (\<lambda>h2.
        bind_res (store iter (Some x) h2) (\<lambda>h3.
        Inr (iter, v1\<lparr>size_v := wrap (size_v v1 + 1)\<rparr>, h3)))))"

definition Insert_move :: "ptr \<Rightarrow> 'a \<Rightarrow> SimpleVector \<Rightarrow> 'a::default heap \<Rightarrow> error + (ptr \<times> SimpleVector \<times> 'a heap)" where
  \<comment> \<open>\<^verbatim>\<open>Iterator Insert(Iterator pos, Type&& value)\<close>\<close>
  "Insert_move pos x v h =
     (if \<not> (ptr_ge pos (begin_v v) \<and> ptr_less pos (end_v v)) then Inl AssertionFailed
      else
        bind_res (std_distance (begin_v v) pos) (\<lambda>dist.
        bind_res (Resize (wrap (size_v v + 1)) v h) (\<lambda>(v1, h1).
        bind_res (ptr_sub (end_v v1) 1) (\<lambda>lst.
        bind_res (std_move_backward (ptr_add (begin_v v1) dist) lst (end_v v1) h1) (\<lambda>h2.
        bind_res (std_exchange (ptr_add (begin_v v1) dist) x h2) (\<lambda>(old, h3).
        Inr (ptr_add (begin_v v1) dist, v1, h3)))))))"

definition PushBack :: "'a \<Rightarrow> SimpleVector \<Rightarrow> 'a::default heap \<Rightarrow> error + (SimpleVector \<times> 'a heap)" where
  \<comment> \<open>\<^verbatim>\<open>void PushBack(const Type& item)\<close>\<close>
  "PushBack item v h =
     bind_res (Insert (end_v v) item v h) (\<lambda>(it, v1, h1). Inr (v1, h1))"

definition PushBack_move :: "'a \<Rightarrow> SimpleVector \<Rightarrow> 'a::default heap \<Rightarrow> error + (SimpleVector \<times> 'a heap)" where
  \<comment> \<open>\<^verbatim>\<open>void PushBack(Type&& item)\<close>\<close>
  "PushBack_move item v h =
     bind_res (Insert_move (end_v v) item v h) (\<lambda>(it, v1, h1). Inr (v1, h1))"

definition PopBack :: "SimpleVector \<Rightarrow> SimpleVector" where
  "PopBack v = (if size_v v = 0 then v else v\<lparr>size_v := dec (size_v v)\<rparr>)"

definition Erase :: "ptr \<Rightarrow> SimpleVector \<Rightarrow> 'a heap \<Rightarrow> error + (ptr \<times> SimpleVector \<times> 'a heap)" where
  "Erase pos v h =
     (if \<not> (ptr_ge pos (begin_v v) \<and> ptr_less pos (end_v v)) then Inl AssertionFailed
      else
        bind_res (std_distance (cbegin v) pos) (\<lambda>n.
        bind_res (std_move (ptr_add (ptr_add (begin_v v) n) 1) (end_v v)
                    (ptr_add (begin_v v) n) h) (\<lambda>h1.
        let v1 = v\<lparr>size_v := dec (size_v v)\<rparr>
        in Inr (ptr_add (begin_v v1) n, v1, h1))))"

definition Clear :: "SimpleVector \<Rightarrow> SimpleVector" where
  "Clear v = v\<lparr>size_v := 0\<rparr>"

definition GetSize :: "SimpleVector \<Rightarrow> nat" where
  "GetSize v = size_v v"

definition GetCapacity :: "SimpleVector \<Rightarrow> nat" where
  "GetCapacity v = capacity v"

definition IsEmpty :: "SimpleVector \<Rightarrow> bool" where
  "IsEmpty v \<longleftrightarrow> size_v v = 0"

definition index_op :: "nat \<Rightarrow> SimpleVector \<Rightarrow> error + ptr" where
  \<comment> \<open>\<^verbatim>\<open>operator[]\<close>: the reference it returns is the address of the slot\<close>
  "index_op index v =
     (if index < size_v v then Inr (ptr_add (Get (array v)) index) else Inl AssertionFailed)"

definition At :: "nat \<Rightarrow> SimpleVector \<Rightarrow> error + ptr" where
  "At index v =
     (if index < size_v v then Inr (ptr_add (Get (array v)) index) else Inl OutOfRange)"

section \<open>What a vector denotes\<close>

definition allocated_slots :: "'a heap \<Rightarrow> ArrayPtr \<Rightarrow> nat option" where
  \<comment> \<open>the number of slots of the owned buffer; \<open>None\<close> when the pointer dangles\<close>
  "allocated_slots h a =
     (case a of None \<Rightarrow> Some 0
      | Some i \<Rightarrow> (case buffer_at h (Some i) of None \<Rightarrow> None | Some b \<Rightarrow> Some (length b)))"

definition invariant :: "'a heap \<Rightarrow> SimpleVector \<Rightarrow> bool" where
  "invariant h v \<longleftrightarrow>
     size_v v \<le> capacity v \<and> allocated_slots h (array v) = Some (capacity v)"

definition elements :: "'a heap \<Rightarrow> SimpleVector \<Rightarrow> 'a slot list" where
  \<comment> \<open>the live sequence: the slots at the indices below \<open>size\<close>\<close>
  "elements h v =
     (case buffer_at h (array v) of None \<Rightarrow> []
      | Some b \<Rightarrow> take (size_v v) b)"

instantiation int :: default
begin

definition default_int :: int where
  "default_int = 0"

instance ..

end

section \<open>Reading and writing buffers\<close>

lemma buffer_at_live:
  "a < length h \<Longrightarrow> h ! a = Some A \<Longrightarrow> buffer_at h (Some a) = Some A"
  by (simp add: buffer_at_def)

lemma buffer_at_None [simp]: "buffer_at h None = None"
  by (simp add: buffer_at_def)

lemma load_live:
  "a < length h \<Longrightarrow> h ! a = Some A \<Longrightarrow> i < length A \<Longrightarrow> load h (Ptr (Some a) i) = Inr (A ! i)"
  by (simp add: load_def buffer_at_def)

lemma store_live:
  "a < length h \<Longrightarrow> h ! a = Some A \<Longrightarrow> i < length A \<Longrightarrow>
   store (Ptr (Some a) i) x h = Inr (h[a := Some (A[i := x])])"
  by (simp add: store_def buffer_at_def)

lemma ptr_add_Ptr [simp]: "ptr_add (Ptr b i) n = Ptr b (i + n)"
  by (simp add: ptr_add_def)

lemma take_Suc_update: "i < length A \<Longrightarrow> take (Suc i) (A[i := x]) = take i A @ [x]"
  by (simp add: take_Suc_conv_app_nth)

lemma update_same: "h ! a = Some A \<Longrightarrow> h[a := Some A] = h"
  by (metis list_update_id)

lemma fill_loop_live:
  "a < length h \<Longrightarrow> h ! a = Some A \<Longrightarrow> i + n \<le> length A \<Longrightarrow>
   fill_loop n (Ptr (Some a) i) x h =
     Inr (h[a := Some (take i A @ replicate n x @ drop (i + n) A)])"
proof (induction n arbitrary: i A h)
  case 0
  then show ?case by (simp add: update_same)
next
  case (Suc n)
  let ?A = "A[i := x]" and ?h = "h[a := Some (A[i := x])]"
  from Suc.prems have st: "store (Ptr (Some a) i) x h = Inr ?h"
    by (simp add: store_live)
  have ih: "fill_loop n (Ptr (Some a) (Suc i)) x ?h =
      Inr (?h[a := Some (take (Suc i) ?A @ replicate n x @ drop (Suc i + n) ?A)])"
    using Suc.prems by (intro Suc.IH) simp_all
  have eq: "take (Suc i) ?A @ replicate n x @ drop (Suc i + n) ?A =
      take i A @ replicate (Suc n) x @ drop (i + Suc n) A"
    using Suc.prems by (simp add: take_Suc_update)
  have "fill_loop (Suc n) (Ptr (Some a) i) x h = fill_loop n (Ptr (Some a) (Suc i)) x ?h"
    using st by simp
  also note ih
  finally show ?case by (simp only: eq list_update_overwrite)
qed

lemma copy_loop_other:
  "a < length h \<Longrightarrow> h ! a = Some A \<Longrightarrow> b < length h \<Longrightarrow> h ! b = Some B \<Longrightarrow> a \<noteq> b \<Longrightarrow>
   i + n \<le> length A \<Longrightarrow> j + n \<le> length B \<Longrightarrow>
   copy_loop n (Ptr (Some a) i) (Ptr (Some b) j) h =
     Inr (h[b := Some (take j B @ take n (drop i A) @ drop (j + n) B)])"
proof (induction n arbitrary: i j B h)
  case 0
  then show ?case by (simp add: update_same)
next
  case (Suc n)
  let ?B = "B[j := A ! i]"
  let ?h = "h[b := Some ?B]"
  from Suc.prems have ld: "load h (Ptr (Some a) i) = Inr (A ! i)"
    by (simp add: load_live)
  from Suc.prems have st: "store (Ptr (Some b) j) (A ! i) h = Inr ?h"
    by (simp add: store_live)
  have ih: "copy_loop n (Ptr (Some a) (Suc i)) (Ptr (Some b) (Suc j)) ?h =
      Inr (?h[b := Some (take (Suc j) ?B @ take n (drop (Suc i) A) @ drop (Suc j + n) ?B)])"
    using Suc.prems by (intro Suc.IH) simp_all
  have eq: "take (Suc j) ?B @ take n (drop (Suc i) A) @ drop (Suc j + n) ?B =
      take j B @ take (Suc n) (drop i A) @ drop (j + Suc n) B"
    using Suc.prems by (simp add: take_Suc_update Cons_nth_drop_Suc [symmetric])
  have "copy_loop (Suc n) (Ptr (Some a) i) (Ptr (Some b) j) h =
      copy_loop n (Ptr (Some a) (Suc i)) (Ptr (Some b) (Suc j)) ?h"
    using ld st by simp
  also note ih
  finally show ?case by (simp only: eq list_update_overwrite)
qed

lemma copy_loop_left:
  "a < length h \<Longrightarrow> h ! a = Some A \<Longrightarrow> j \<le> i \<Longrightarrow> i + n \<le> length A \<Longrightarrow>
   copy_loop n (Ptr (Some a) i) (Ptr (Some a) j) h =
     Inr (h[a := Some (take j A @ take n (drop i A) @ drop (j + n) A)])"
proof (induction n arbitrary: i j A h)
  case 0
  then show ?case by (simp add: update_same)
next
  case (Suc n)
  let ?A = "A[j := A ! i]"
  let ?h = "h[a := Some ?A]"
  from Suc.prems have ld: "load h (Ptr (Some a) i) = Inr (A ! i)"
    by (simp add: load_live)
  from Suc.prems have st: "store (Ptr (Some a) j) (A ! i) h = Inr ?h"
    by (simp add: store_live)
  have ih: "copy_loop n (Ptr (Some a) (Suc i)) (Ptr (Some a) (Suc j)) ?h =
      Inr (?h[a := Some (take (Suc j) ?A @ take n (drop (Suc i) ?A) @ drop (Suc j + n) ?A)])"
    using Suc.prems by (intro Suc.IH) simp_all
  have eq: "take (Suc j) ?A @ take n (drop (Suc i) ?A) @ drop (Suc j + n) ?A =
      take j A @ take (Suc n) (drop i A) @ drop (j + Suc n) A"
    using Suc.prems by (simp add: take_Suc_update Cons_nth_drop_Suc [symmetric])
  have "copy_loop (Suc n) (Ptr (Some a) i) (Ptr (Some a) j) h =
      copy_loop n (Ptr (Some a) (Suc i)) (Ptr (Some a) (Suc j)) ?h"
    using ld st by simp
  also note ih
  finally show ?case by (simp only: eq list_update_overwrite)
qed


lemma Get_simp [simp]: "Get a = Ptr a 0"
  by (simp add: Get_def)

lemma invariant_None:
  "invariant h v \<Longrightarrow> array v = None \<Longrightarrow> capacity v = 0 \<and> size_v v = 0"
  by (simp add: invariant_def allocated_slots_def)

lemma invariant_Some:
  "invariant h v \<Longrightarrow> array v = Some a \<Longrightarrow>
   \<exists>A. a < length h \<and> h ! a = Some A \<and> length A = capacity v \<and> size_v v \<le> length A"
  by (auto simp: invariant_def allocated_slots_def buffer_at_def split: option.splits if_splits)

lemma elements_None: "array v = None \<Longrightarrow> elements h v = []"
  by (simp add: elements_def)

lemma elements_Some:
  "array v = Some a \<Longrightarrow> a < length h \<Longrightarrow> h ! a = Some A \<Longrightarrow> elements h v = take (size_v v) A"
  by (simp add: elements_def buffer_at_def)

lemma length_elements: "invariant h v \<Longrightarrow> length (elements h v) = size_v v"
proof (cases "array v")
  case None
  assume "invariant h v"
  with None show ?thesis by (simp add: elements_None invariant_None)
next
  case (Some a)
  assume "invariant h v"
  with Some obtain A where "a < length h" "h ! a = Some A" "size_v v \<le> length A"
    by (blast dest: invariant_Some)
  with Some show ?thesis by (simp add: elements_Some)
qed

lemma move_into_fresh:
  assumes inv: "invariant h v" and fit: "size_v v \<le> length B"
  shows "std_move (begin_v v) (end_v v) (Ptr (Some (length h)) 0) (h @ [Some B]) =
         Inr (h @ [Some (elements h v @ drop (size_v v) B)])"
proof (cases "array v")
  case None
  with inv show ?thesis
    by (simp add: std_move_def std_copy_def begin_v_def end_v_def elements_None invariant_None)
next
  case (Some a)
  with inv obtain A where A: "a < length h" "h ! a = Some A" "size_v v \<le> length A"
    by (blast dest: invariant_Some)
  have "copy_loop (size_v v) (Ptr (Some a) 0) (Ptr (Some (length h)) 0) (h @ [Some B]) =
        Inr ((h @ [Some B])[length h := Some (take 0 B @ take (size_v v) (drop 0 A) @ drop (0 + size_v v) B)])"
    using A fit by (intro copy_loop_other) (simp_all add: nth_append)
  then show ?thesis
    using Some A by (simp add: std_move_def std_copy_def begin_v_def end_v_def elements_Some)
qed

lemma release_owned:
  assumes inv: "invariant h v"
  shows "\<exists>h'. release_buffer (array v) (h @ [X]) = Inr h' \<and> length h' = Suc (length h) \<and>
           h' ! length h = X"
proof (cases "array v")
  case None
  then show ?thesis by (simp add: release_buffer_def)
next
  case (Some a)
  with inv obtain A where A: "a < length h" "h ! a = Some A"
    by (blast dest: invariant_Some)
  then have "buffer_at (h @ [X]) (Some a) = Some A"
    by (simp add: buffer_at_live nth_append)
  with Some A show ?thesis
    by (simp add: release_buffer_def nth_append)
qed

lemma wrap_small: "n < 2 ^ 64 \<Longrightarrow> wrap n = n"
  by (simp add: wrap_def)

lemma Resize_realloc:
  fixes h :: "'a::default heap"
  assumes inv: "invariant h v" and gt: "size_v v < new_size" and ge: "capacity v \<le> new_size"
  defines "nc \<equiv> max new_size (wrap (capacity v * 2))"
  shows "\<exists>h'. Resize new_size v h =
             Inr (\<lparr>capacity = nc, size_v = new_size, array = Some (length h)\<rparr>, h') \<and>
           length h' = Suc (length h) \<and>
           h' ! length h = Some (elements h v @ replicate (new_size - size_v v) (Some default) @
                                 replicate (nc - new_size) None)"
proof -
  let ?n = "size_v v" and ?a = "length h"
  let ?B1 = "replicate nc (None :: 'a slot)"
  let ?B2 = "elements h v @ replicate (nc - ?n) None"
  let ?B3 = "elements h v @ replicate (new_size - ?n) (Some default) @ replicate (nc - new_size) None"
  have nc: "new_size \<le> nc" "0 < nc"
    using gt by (simp_all add: nc_def max_def)
  have len: "length (elements h v) = ?n"
    using inv by (rule length_elements)
  have alloc: "ArrayPtr_new nc h = (Some ?a, h @ [Some ?B1])"
    using nc by (simp add: ArrayPtr_new_def)
  have mv: "std_move (begin_v v) (end_v v) (Ptr (Some ?a) 0) (h @ [Some ?B1]) = Inr (h @ [Some ?B2])"
    using move_into_fresh [OF inv, of ?B1] gt nc by simp
  have "fill_loop (new_size - ?n) (Ptr (Some ?a) ?n) (Some default) (h @ [Some ?B2]) =
        Inr ((h @ [Some ?B2])[?a := Some (take ?n ?B2 @ replicate (new_size - ?n) (Some default) @
                                           drop (?n + (new_size - ?n)) ?B2)])"
    using gt nc len by (intro fill_loop_live) simp_all
  moreover have "take ?n ?B2 @ replicate (new_size - ?n) (Some default) @
                   drop (?n + (new_size - ?n)) ?B2 = ?B3"
    using gt nc len by simp
  ultimately have gen: "std_generate (ptr_add (Ptr (Some ?a) 0) ?n) (ptr_add (Ptr (Some ?a) 0) new_size)
        (\<lambda>_. default) (h @ [Some ?B2]) = Inr (h @ [Some ?B3])"
    using gt by (simp add: std_generate_def)
  obtain h' where rel: "release_buffer (array v) (h @ [Some ?B3]) = Inr h'"
      "length h' = Suc ?a" "h' ! ?a = Some ?B3"
    using release_owned [OF inv] by blast
  have "Resize new_size v h = Inr (\<lparr>capacity = nc, size_v = new_size, array = Some ?a\<rparr>, h')"
    using gt ge alloc mv gen rel(1)
    by (simp add: Resize_def Let_def ArrayPtr_swap_def nc_def [symmetric])
  with rel show ?thesis by blast
qed

section \<open>Resize\<close>

text \<open>
  C4. \<^verbatim>\<open>Resize(new_size)\<close> by cases. With \<open>new_size \<le> size\<close> only the size field
  changes: capacity and heap stay as they are. With \<open>size < new_size < capacity\<close> again only
  the size field changes. Otherwise, for a vector that satisfies its invariant and whose
  buffer has fewer than \<open>2 ^ 63\<close> slots (so that \<^verbatim>\<open>capacity * 2\<close> does not wrap), a
  fresh buffer is allocated, the new capacity is \<open>max new_size (2 * capacity)\<close> (which is
  \<open>new_size\<close> from capacity 0), the first \<open>size\<close> elements are the old ones in order and
  the size becomes \<open>new_size\<close>.
\<close>

theorem Resize_cases:
  fixes h :: "'a::default heap"
  shows "(new_size \<le> size_v v \<longrightarrow> Resize new_size v h = Inr (v\<lparr>size_v := new_size\<rparr>, h)) \<and>
   (size_v v < new_size \<and> new_size < capacity v \<longrightarrow>
      Resize new_size v h = Inr (v\<lparr>size_v := new_size\<rparr>, h)) \<and>
   (size_v v < new_size \<and> capacity v \<le> new_size \<and> invariant h v \<and> capacity v < 2 ^ 63 \<longrightarrow>
      (\<exists>v' h'. Resize new_size v h = Inr (v', h') \<and>
         capacity v' = max new_size (2 * capacity v) \<and>
         (capacity v = 0 \<longrightarrow> capacity v' = new_size) \<and>
         size_v v' = new_size \<and>
         array v' = Some (length h) \<and> length h' = Suc (length h) \<and>
         take (size_v v) (elements h' v') = elements h v \<and>
         invariant h' v'))"
proof (intro conjI impI)
  assume "new_size \<le> size_v v"
  then show "Resize new_size v h = Inr (v\<lparr>size_v := new_size\<rparr>, h)"
    by (simp add: Resize_def)
next
  assume "size_v v < new_size \<and> new_size < capacity v"
  then show "Resize new_size v h = Inr (v\<lparr>size_v := new_size\<rparr>, h)"
    by (simp add: Resize_def)
next
  assume a: "size_v v < new_size \<and> capacity v \<le> new_size \<and> invariant h v \<and> capacity v < 2 ^ 63"
  define nc where "nc = max new_size (wrap (capacity v * 2))"
  from a have w: "wrap (capacity v * 2) = 2 * capacity v"
    by (simp add: wrap_small)
  from a obtain h' where r: "Resize new_size v h =
        Inr (\<lparr>capacity = nc, size_v = new_size, array = Some (length h)\<rparr>, h')"
      "length h' = Suc (length h)"
      "h' ! length h = Some (elements h v @ replicate (new_size - size_v v) (Some default) @
                                 replicate (nc - new_size) None)"
    unfolding nc_def using Resize_realloc [of h v new_size] by blast
  let ?v = "\<lparr>capacity = nc, size_v = new_size, array = Some (length h)\<rparr>"
  from a have len: "length (elements h v) = size_v v"
    by (simp add: length_elements)
  have nc: "new_size \<le> nc"
    by (simp add: nc_def)
  have el: "elements h' ?v = elements h v @ replicate (new_size - size_v v) (Some default)"
    using r(2,3) len a nc by (simp add: elements_def buffer_at_def)
  have inv: "invariant h' ?v"
    using r(2,3) len a nc by (simp add: invariant_def allocated_slots_def buffer_at_def)
  have "capacity ?v = max new_size (2 * capacity v)"
    by (simp add: nc_def w)
  moreover have "capacity v = 0 \<longrightarrow> capacity ?v = new_size"
    using w by (auto simp: nc_def)
  moreover have "take (size_v v) (elements h' ?v) = elements h v"
    using el len by simp
  ultimately show "\<exists>v' h'. Resize new_size v h = Inr (v', h') \<and>
         capacity v' = max new_size (2 * capacity v) \<and>
         (capacity v = 0 \<longrightarrow> capacity v' = new_size) \<and>
         size_v v' = new_size \<and>
         array v' = Some (length h) \<and> length h' = Suc (length h) \<and>
         take (size_v v) (elements h' v') = elements h v \<and>
         invariant h' v'"
    using r(1,2) inv by (intro exI [of _ ?v] exI [of _ h']) simp
qed

theorem Resize_cases_witness:
  "invariant [Some [Some 7, Some 7, Some 7, Some (7::int)]] \<lparr>capacity = 4, size_v = 2, array = Some 0\<rparr> \<and>
   Resize 1 \<lparr>capacity = 4, size_v = 2, array = Some 0\<rparr> [Some [Some 7, Some 7, Some 7, Some (7::int)]] =
     Inr (\<lparr>capacity = 4, size_v = 1, array = Some 0\<rparr>, [Some [Some 7, Some 7, Some 7, Some 7]]) \<and>
   Resize 3 \<lparr>capacity = 4, size_v = 2, array = Some 0\<rparr> [Some [Some 7, Some 7, Some 7, Some (7::int)]] =
     Inr (\<lparr>capacity = 4, size_v = 3, array = Some 0\<rparr>, [Some [Some 7, Some 7, Some 7, Some 7]]) \<and>
   (\<exists>v' h'. Resize 4 \<lparr>capacity = 4, size_v = 2, array = Some 0\<rparr> [Some [Some 7, Some 7, Some 7, Some (7::int)]] =
       Inr (v', h') \<and> capacity v' = 8 \<and> size_v v' = 4 \<and> array v' = Some 1 \<and>
       take 2 (elements h' v') = [Some 7, Some 7])"
proof -
  let ?h = "[Some [Some 7, Some 7, Some 7, Some (7::int)]]"
  let ?v = "\<lparr>capacity = 4, size_v = 2, array = Some 0\<rparr>"
  have i: "invariant ?h ?v"
    by (simp add: invariant_def allocated_slots_def buffer_at_def)
  have e: "elements ?h ?v = [Some 7, Some 7]"
    by (simp add: elements_def buffer_at_def)
  show ?thesis
    using i e Resize_cases [of 1 ?v ?h] Resize_cases [of 3 ?v ?h] Resize_cases [of 4 ?v ?h]
    by auto
qed

section \<open>Element access\<close>

text \<open>
  C7. \<^verbatim>\<open>At(index)\<close> throws \<^verbatim>\<open>std::out_of_range\<close> exactly when \<open>index \<ge> size\<close>, it
  fails in no other way, and for \<open>index < size\<close> it returns the reference that
  \<^verbatim>\<open>operator[]\<close> returns: the address of slot \<open>index\<close> of the owned buffer.
\<close>

theorem At_checked:
  "(At index v = Inl OutOfRange \<longleftrightarrow> size_v v \<le> index) \<and>
   (\<forall>e. At index v = Inl e \<longrightarrow> e = OutOfRange) \<and>
   (index < size_v v \<longrightarrow>
      At index v = index_op index v \<and> At index v = Inr (Ptr (array v) index))"
  by (simp add: At_def index_op_def)

theorem At_checked_witness:
  "At 1 \<lparr>capacity = 4, size_v = 2, array = Some 0\<rparr> =
     index_op 1 \<lparr>capacity = 4, size_v = 2, array = Some 0\<rparr> \<and>
   At 1 \<lparr>capacity = 4, size_v = 2, array = Some 0\<rparr> = Inr (Ptr (Some 0) 1) \<and>
   At 2 \<lparr>capacity = 4, size_v = 2, array = Some 0\<rparr> = Inl OutOfRange"
  using At_checked [of 1 "\<lparr>capacity = 4, size_v = 2, array = Some 0\<rparr>"]
    At_checked [of 2 "\<lparr>capacity = 4, size_v = 2, array = Some 0\<rparr>"]
  by auto

section \<open>PopBack\<close>

text \<open>
  C9. \<^verbatim>\<open>PopBack()\<close> has no failing path. On an empty vector it changes nothing. On a
  non-empty vector the size decreases by exactly 1, capacity and buffer stay as they
  are, and the live sequence is the old one without its last element.
\<close>

theorem PopBack_cases:
  "(size_v v = 0 \<longrightarrow> PopBack v = v) \<and>
   (0 < size_v v \<longrightarrow>
      size_v (PopBack v) = size_v v - 1 \<and> capacity (PopBack v) = capacity v \<and>
      array (PopBack v) = array v \<and>
      elements h (PopBack v) = take (size_v v - 1) (elements h v))"
  by (auto simp: PopBack_def dec_def elements_def split: option.splits)

theorem PopBack_cases_witness:
  "PopBack \<lparr>capacity = 3, size_v = 0, array = Some 0\<rparr> = \<lparr>capacity = 3, size_v = 0, array = Some 0\<rparr> \<and>
   size_v (PopBack \<lparr>capacity = 3, size_v = 2, array = Some 0\<rparr>) = 1 \<and>
   capacity (PopBack \<lparr>capacity = 3, size_v = 2, array = Some 0\<rparr>) = 3 \<and>
   elements [Some [Some (1::int), Some 2, Some 3]] (PopBack \<lparr>capacity = 3, size_v = 2, array = Some 0\<rparr>) =
     [Some 1]"
  using PopBack_cases [of "\<lparr>capacity = 3, size_v = 0, array = Some 0\<rparr>"]
    PopBack_cases [of "\<lparr>capacity = 3, size_v = 2, array = Some 0\<rparr>"
      "[Some [Some (1::int), Some 2, Some 3]]"]
  by (simp add: elements_def buffer_at_def)

section \<open>Move construction\<close>

text \<open>
  C10. Move construction gives the new vector exactly the fields of the source (its
  size, its capacity and its buffer, hence its element sequence) and leaves the source
  as a default-constructed vector: size 0, capacity 0 and the null buffer.
\<close>

theorem SimpleVector_move_empties_source:
  "SimpleVector_move other = (other, SimpleVector_default) \<and>
   size_v (snd (SimpleVector_move other)) = 0 \<and>
   capacity (snd (SimpleVector_move other)) = 0 \<and>
   array (snd (SimpleVector_move other)) = None \<and>
   size_v (fst (SimpleVector_move other)) = size_v other \<and>
   capacity (fst (SimpleVector_move other)) = capacity other \<and>
   elements h (fst (SimpleVector_move other)) = elements h other"
proof -
  have "SimpleVector_move other = (other, SimpleVector_default)"
    by (simp add: SimpleVector_move_def swap_def ArrayPtr_swap_def SimpleVector_default_def)
  then show ?thesis
    by (simp add: SimpleVector_default_def)
qed

section \<open>Reserve\<close>

lemma SimpleVector_size_zero:
  "SimpleVector_size 0 h = Inr (\<lparr>capacity = 0, size_v = 0, array = None\<rparr>, h)"
  by (simp add: SimpleVector_size_def ArrayPtr_new_def std_fill_def begin_v_def end_v_def)

lemma SimpleVector_size_pos:
  fixes h :: "'a::default heap"
  assumes "0 < n"
  shows "SimpleVector_size n h =
         Inr (\<lparr>capacity = n, size_v = n, array = Some (length h)\<rparr>,
              h @ [Some (replicate n (Some default))])"
proof -
  let ?A = "replicate n (None :: 'a slot)"
  have "fill_loop n (Ptr (Some (length h)) 0) (Some default) (h @ [Some ?A]) =
        Inr ((h @ [Some ?A])[length h := Some (take 0 ?A @ replicate n (Some default) @ drop (0 + n) ?A)])"
    by (intro fill_loop_live) simp_all
  with assms show ?thesis
    by (simp add: SimpleVector_size_def ArrayPtr_new_def std_fill_def begin_v_def end_v_def)
qed

lemma Reserve_grow:
  fixes h :: "'a::default heap"
  assumes inv: "invariant h v" and ge: "capacity v \<le> proxy_size obj"
  shows "\<exists>v' h'. Reserve obj v h = Inr (v', h') \<and> capacity v' = proxy_size obj \<and>
           size_v v' = size_v v \<and> elements h' v' = elements h v \<and> invariant h' v'"
proof (cases "proxy_size obj = 0")
  case True
  with ge inv have z: "capacity v = 0" "size_v v = 0"
    by (simp_all add: invariant_def)
  let ?v = "\<lparr>capacity = 0, size_v = 0, array = None\<rparr>"
  have mv: "std_move (begin_v v) (end_v v) (begin_v ?v) h = Inr h"
    using z by (simp add: std_move_def std_copy_def begin_v_def end_v_def)
  have "\<exists>h'. release_buffer (array v) h = Inr h'"
  proof (cases "array v")
    case None
    then show ?thesis by (simp add: release_buffer_def)
  next
    case (Some a)
    with inv obtain A where "a < length h" "h ! a = Some A"
      by (blast dest: invariant_Some)
    with Some show ?thesis
      by (simp add: release_buffer_def buffer_at_live)
  qed
  then obtain h' where rel: "release_buffer (array v) h = Inr h'" ..
  have "Reserve obj v h = Inr (?v, h')"
    using True z mv rel
    by (simp add: Reserve_def SimpleVector_size_zero swap_def ArrayPtr_swap_def destroy_def)
  moreover have "elements h' ?v = elements h v"
    using z by (simp add: elements_def split: option.splits)
  moreover have "invariant h' ?v"
    by (simp add: invariant_def allocated_slots_def)
  ultimately show ?thesis
    using True z by (intro exI [of _ ?v] exI [of _ h']) simp
next
  case False
  let ?c = "proxy_size obj" and ?a = "length h"
  let ?B1 = "replicate ?c (Some (default :: 'a))"
  let ?B2 = "elements h v @ replicate (?c - size_v v) (Some default)"
  let ?tmp = "\<lparr>capacity = ?c, size_v = ?c, array = Some ?a\<rparr>"
  let ?v = "\<lparr>capacity = ?c, size_v = size_v v, array = Some ?a\<rparr>"
  from inv ge have le: "size_v v \<le> ?c"
    by (simp add: invariant_def)
  have len: "length (elements h v) = size_v v"
    using inv by (rule length_elements)
  have ctor: "SimpleVector_size ?c h = Inr (?tmp, h @ [Some ?B1])"
    using False by (simp add: SimpleVector_size_pos)
  have mv: "std_move (begin_v v) (end_v v) (begin_v ?tmp) (h @ [Some ?B1]) = Inr (h @ [Some ?B2])"
    using move_into_fresh [OF inv, of ?B1] le by (simp add: begin_v_def)
  obtain h' where rel: "release_buffer (array v) (h @ [Some ?B2]) = Inr h'"
      "length h' = Suc ?a" "h' ! ?a = Some ?B2"
    using release_owned [OF inv] by blast
  have "Reserve obj v h = Inr (?v, h')"
    using ge ctor mv rel(1)
    by (simp add: Reserve_def swap_def ArrayPtr_swap_def destroy_def)
  moreover have "elements h' ?v = elements h v"
    using rel(2,3) len by (simp add: elements_def buffer_at_def)
  moreover have "invariant h' ?v"
    using rel(2,3) len le by (simp add: invariant_def allocated_slots_def buffer_at_def)
  ultimately show ?thesis
    by (intro exI [of _ ?v] exI [of _ h']) simp
qed

lemma Reserve_capacity_mono:
  fixes h :: "'a::default heap"
  assumes "Reserve obj v h = Inr (v', h')"
  shows "capacity v \<le> capacity v'"
proof (cases "proxy_size obj < capacity v")
  case True
  with assms show ?thesis by (simp add: Reserve_def)
next
  case False
  have ctor: "\<exists>a h1. SimpleVector_size (proxy_size obj) h =
      Inr (\<lparr>capacity = proxy_size obj, size_v = proxy_size obj, array = a\<rparr>, h1)"
    by (cases "proxy_size obj = 0") (auto simp: SimpleVector_size_zero SimpleVector_size_pos)
  then obtain a h1 where "SimpleVector_size (proxy_size obj) h =
      Inr (\<lparr>capacity = proxy_size obj, size_v = proxy_size obj, array = a\<rparr>, h1)" by blast
  with assms False have "capacity v' = proxy_size obj"
    by (cases "std_move (begin_v v) (end_v v)
          (begin_v \<lparr>capacity = proxy_size obj, size_v = proxy_size obj, array = a\<rparr>) h1";
        cases "release_buffer (array v) (projr (std_move (begin_v v) (end_v v)
          (begin_v \<lparr>capacity = proxy_size obj, size_v = proxy_size obj, array = a\<rparr>) h1))")
      (auto simp: Reserve_def swap_def ArrayPtr_swap_def destroy_def)
  with False show ?thesis by simp
qed

text \<open>
  C6. \<^verbatim>\<open>Reserve(c)\<close> with \<open>c < capacity\<close> returns at once: vector and heap are
  unchanged. With \<open>c \<ge> capacity\<close>, on a vector that satisfies its invariant, the
  capacity becomes exactly \<open>c\<close> while the size and the element sequence stay as they
  were. Whenever \<^verbatim>\<open>Reserve\<close> returns, the capacity has not decreased.
\<close>

theorem Reserve_cases:
  fixes h :: "'a::default heap"
  shows "(proxy_size obj < capacity v \<longrightarrow> Reserve obj v h = Inr (v, h)) \<and>
   (capacity v \<le> proxy_size obj \<and> invariant h v \<longrightarrow>
      (\<exists>v' h'. Reserve obj v h = Inr (v', h') \<and> capacity v' = proxy_size obj \<and>
         size_v v' = size_v v \<and> elements h' v' = elements h v \<and> invariant h' v')) \<and>
   (\<forall>v' h'. Reserve obj v h = Inr (v', h') \<longrightarrow> capacity v \<le> capacity v')"
proof (intro conjI impI allI)
  assume "proxy_size obj < capacity v"
  then show "Reserve obj v h = Inr (v, h)"
    by (simp add: Reserve_def)
next
  assume "capacity v \<le> proxy_size obj \<and> invariant h v"
  then show "\<exists>v' h'. Reserve obj v h = Inr (v', h') \<and> capacity v' = proxy_size obj \<and>
         size_v v' = size_v v \<and> elements h' v' = elements h v \<and> invariant h' v'"
    by (simp add: Reserve_grow)
next
  fix v' h'
  assume "Reserve obj v h = Inr (v', h')"
  then show "capacity v \<le> capacity v'"
    by (rule Reserve_capacity_mono)
qed


theorem Reserve_cases_witness:
  "invariant [Some [Some 5, Some (6::int)]] \<lparr>capacity = 2, size_v = 2, array = Some 0\<rparr> \<and>
   Reserve (Reserve_proxy 1) \<lparr>capacity = 2, size_v = 2, array = Some 0\<rparr> [Some [Some 5, Some (6::int)]] =
     Inr (\<lparr>capacity = 2, size_v = 2, array = Some 0\<rparr>, [Some [Some 5, Some 6]]) \<and>
   (\<exists>v' h'. Reserve (Reserve_proxy 4) \<lparr>capacity = 2, size_v = 2, array = Some 0\<rparr>
               [Some [Some 5, Some (6::int)]] = Inr (v', h') \<and>
       capacity v' = 4 \<and> size_v v' = 2 \<and> elements h' v' = [Some 5, Some 6] \<and> 2 \<le> capacity v')"
proof -
  let ?h = "[Some [Some 5, Some (6::int)]]"
  let ?v = "\<lparr>capacity = 2, size_v = 2, array = Some 0\<rparr>"
  have i: "invariant ?h ?v"
    by (simp add: invariant_def allocated_slots_def buffer_at_def)
  have e: "elements ?h ?v = [Some 5, Some 6]"
    by (simp add: elements_def buffer_at_def)
  show ?thesis
    using i e Reserve_cases [of "Reserve_proxy 1" ?v ?h] Reserve_cases [of "Reserve_proxy 4" ?v ?h]
    by (auto simp: Reserve_proxy_def)
qed

section \<open>Erase\<close>

lemma Erase_live:
  assumes inv: "invariant h v" and i: "i < size_v v"
  shows "\<exists>a A. array v = Some a \<and> a < length h \<and> h ! a = Some A \<and> length A = capacity v \<and>
           Erase (Ptr (Some a) i) v h =
             Inr (Ptr (Some a) i, v\<lparr>size_v := size_v v - 1\<rparr>,
                  h[a := Some (take i A @ take (size_v v - Suc i) (drop (Suc i) A) @
                               drop (size_v v - 1) A)])"
proof -
  from inv i obtain a where a: "array v = Some a"
    by (cases "array v") (auto dest: invariant_None)
  with inv obtain A where A: "a < length h" "h ! a = Some A" "length A = capacity v"
      "size_v v \<le> length A"
    by (blast dest: invariant_Some)
  have "copy_loop (size_v v - Suc i) (Ptr (Some a) (Suc i)) (Ptr (Some a) i) h =
        Inr (h[a := Some (take i A @ take (size_v v - Suc i) (drop (Suc i) A) @
                          drop (i + (size_v v - Suc i)) A)])"
    using A i by (intro copy_loop_left) simp_all
  moreover have "i + (size_v v - Suc i) = size_v v - 1"
    using i by simp
  ultimately have mv: "std_move (ptr_add (ptr_add (begin_v v) i) 1) (end_v v) (ptr_add (begin_v v) i) h =
        Inr (h[a := Some (take i A @ take (size_v v - Suc i) (drop (Suc i) A) @
                          drop (size_v v - 1) A)])"
    using a i by (simp add: std_move_def std_copy_def begin_v_def end_v_def)
  have "Erase (Ptr (Some a) i) v h =
             Inr (Ptr (Some a) i, v\<lparr>size_v := size_v v - 1\<rparr>,
                  h[a := Some (take i A @ take (size_v v - Suc i) (drop (Suc i) A) @
                               drop (size_v v - 1) A)])"
    using a i mv
    by (simp add: Erase_def ptr_ge_def ptr_less_def std_distance_def cbegin_def begin_v_def
        end_v_def dec_def)
  with a A show ?thesis by blast
qed

text \<open>
  C8. For a vector that satisfies its invariant and a position \<open>begin() + i\<close> with
  \<open>i < size\<close>, \<^verbatim>\<open>Erase\<close> succeeds, the size decreases by exactly 1, the elements
  before the position stay and those after it move one slot to the left in their order
  (the live sequence is the old one without its element \<open>i\<close>), and the iterator
  returned is \<open>begin() + i\<close>: it designates the old element \<open>i + 1\<close>, or is \<open>end()\<close>
  when the last element was erased.
\<close>

theorem Erase_shifts_left:
  assumes inv: "invariant h v" and i: "i < size_v v"
  shows "\<exists>h'. Erase (ptr_add (begin_v v) i) v h =
               Inr (ptr_add (begin_v v) i, v\<lparr>size_v := size_v v - 1\<rparr>, h') \<and>
     elements h' (v\<lparr>size_v := size_v v - 1\<rparr>) =
       take i (elements h v) @ drop (Suc i) (elements h v) \<and>
     invariant h' (v\<lparr>size_v := size_v v - 1\<rparr>) \<and>
     (Suc i < size_v v \<longrightarrow> load h' (ptr_add (begin_v v) i) = Inr (elements h v ! Suc i)) \<and>
     (Suc i = size_v v \<longrightarrow> ptr_add (begin_v v) i = end_v (v\<lparr>size_v := size_v v - 1\<rparr>))"
proof -
  from Erase_live [OF inv i] obtain a A where a: "array v = Some a" "a < length h"
      "h ! a = Some A" "length A = capacity v"
    and er: "Erase (Ptr (Some a) i) v h =
             Inr (Ptr (Some a) i, v\<lparr>size_v := size_v v - 1\<rparr>,
                  h[a := Some (take i A @ take (size_v v - Suc i) (drop (Suc i) A) @
                               drop (size_v v - 1) A)])"
    by blast
  let ?A = "take i A @ take (size_v v - Suc i) (drop (Suc i) A) @ drop (size_v v - 1) A"
  let ?h = "h[a := Some ?A]"
  let ?v = "v\<lparr>size_v := size_v v - 1\<rparr>"
  from inv a have le: "size_v v \<le> length A"
    by (simp add: invariant_def)
  have old: "elements h v = take (size_v v) A"
    using a by (simp add: elements_Some)
  have lenA: "length ?A = length A"
    using i le by simp
  have new: "elements ?h ?v = take (size_v v - 1) ?A"
    using a by (simp add: elements_def buffer_at_def)
  have "take (size_v v - 1) ?A = take i A @ take (size_v v - Suc i) (drop (Suc i) A)"
    using i le by simp
  also have "\<dots> = take i (elements h v) @ drop (Suc i) (elements h v)"
    using i le by (simp add: old drop_take min_def)
  finally have el: "elements ?h ?v = take i (elements h v) @ drop (Suc i) (elements h v)"
    using new by simp
  have inv': "invariant ?h ?v"
    using a inv lenA by (simp add: invariant_def allocated_slots_def buffer_at_def)
  have ld: "Suc i < size_v v \<longrightarrow> load ?h (Ptr (Some a) i) = Inr (elements h v ! Suc i)"
  proof
    assume s: "Suc i < size_v v"
    have "load ?h (Ptr (Some a) i) = Inr (?A ! i)"
      using a i le lenA by (intro load_live) simp_all
    moreover have "?A ! i = A ! Suc i"
      using s le by (simp add: nth_append)
    ultimately show "load ?h (Ptr (Some a) i) = Inr (elements h v ! Suc i)"
      using s by (simp add: old)
  qed
  have en: "Suc i = size_v v \<longrightarrow> Ptr (Some a) i = end_v ?v"
    using a by (auto simp: end_v_def)
  show ?thesis
    using a(1) er el inv' ld en
    by (intro exI [of _ ?h]) (simp add: begin_v_def)
qed

theorem Erase_shifts_left_witness:
  "invariant [Some [Some 5, Some 7, Some (6::int)]] \<lparr>capacity = 3, size_v = 3, array = Some 0\<rparr> \<and>
   (\<exists>h'. Erase (Ptr (Some 0) 1) \<lparr>capacity = 3, size_v = 3, array = Some 0\<rparr>
            [Some [Some 5, Some 7, Some (6::int)]] =
            Inr (Ptr (Some 0) 1, \<lparr>capacity = 3, size_v = 2, array = Some 0\<rparr>, h') \<and>
          elements h' \<lparr>capacity = 3, size_v = 2, array = Some 0\<rparr> = [Some 5, Some 6] \<and>
          load h' (Ptr (Some 0) 1) = Inr (Some 6))"
proof -
  let ?h = "[Some [Some 5, Some 7, Some (6::int)]]"
  let ?v = "\<lparr>capacity = 3, size_v = 3, array = Some 0\<rparr>"
  have i: "invariant ?h ?v"
    by (simp add: invariant_def allocated_slots_def buffer_at_def)
  have e: "elements ?h ?v = [Some 5, Some 7, Some 6]"
    by (simp add: elements_def buffer_at_def)
  have "(1::nat) < size_v ?v"
    by simp
  from Erase_shifts_left [OF i this] e i show ?thesis
    by (auto simp: begin_v_def)
qed

section \<open>Evaluating the model on concrete vectors\<close>

lemma fill_loop_numeral:
  "fill_loop (numeral k) p x h =
     bind_res (store p x h) (\<lambda>h'. fill_loop (pred_numeral k) (ptr_add p 1) x h')"
  by (simp add: numeral_eq_Suc)

lemma copy_loop_numeral:
  "copy_loop (numeral k) s d h =
     bind_res (load h s) (\<lambda>x.
     bind_res (store d x h) (\<lambda>h'.
     copy_loop (pred_numeral k) (ptr_add s 1) (ptr_add d 1) h'))"
  by (simp add: numeral_eq_Suc)

lemma backward_loop_numeral:
  "backward_loop (numeral k) l d h =
     bind_res (ptr_sub l 1) (\<lambda>l'.
     bind_res (ptr_sub d 1) (\<lambda>d'.
     bind_res (load h l') (\<lambda>x.
     bind_res (store d' x h) (\<lambda>h'.
     backward_loop (pred_numeral k) l' d' h'))))"
  by (simp add: numeral_eq_Suc)

lemma replicate_numeral_unfold:
  "replicate (numeral k) x = x # replicate (pred_numeral k) x"
  by (simp add: numeral_eq_Suc)

lemmas heap_eval = load_def store_def buffer_at_def ptr_sub_def ptr_less_def ptr_ge_def
  std_distance_def std_fill_def std_generate_def std_copy_def std_move_def std_move_backward_def
  std_exchange_def ArrayPtr_new_def ArrayPtr_swap_def release_buffer_def begin_v_def end_v_def
  cbegin_def swap_def destroy_def fill_loop_numeral copy_loop_numeral backward_loop_numeral
  wrap_def replicate_numeral_unfold

section \<open>Insert and PushBack\<close>

lemma backward_loop_right:
  "a < length h \<Longrightarrow> h ! a = Some A \<Longrightarrow> i \<le> j \<Longrightarrow> j + n \<le> length A \<Longrightarrow>
   backward_loop n (Ptr (Some a) (i + n)) (Ptr (Some a) (j + n)) h =
     Inr (h[a := Some (take j A @ take n (drop i A) @ drop (j + n) A)])"
proof (induction n arbitrary: A h)
  case 0
  then show ?case by (simp add: update_same)
next
  case (Suc n)
  let ?A = "A[j + n := A ! (i + n)]"
  let ?h = "h[a := Some ?A]"
  from Suc.prems have ld: "load h (Ptr (Some a) (i + n)) = Inr (A ! (i + n))"
    by (simp add: load_live)
  from Suc.prems have st: "store (Ptr (Some a) (j + n)) (A ! (i + n)) h = Inr ?h"
    by (simp add: store_live)
  have ih: "backward_loop n (Ptr (Some a) (i + n)) (Ptr (Some a) (j + n)) ?h =
      Inr (?h[a := Some (take j ?A @ take n (drop i ?A) @ drop (j + n) ?A)])"
    using Suc.prems by (intro Suc.IH) simp_all
  have t1: "take j ?A = take j A"
    by simp
  have t2: "take n (drop i ?A) = take n (drop i A)"
    using Suc.prems by (simp add: drop_update_swap)
  have t3: "drop (j + n) ?A = A ! (i + n) # drop (j + Suc n) A"
    using Suc.prems by (simp add: upd_conv_take_nth_drop)
  have t4: "take (Suc n) (drop i A) = take n (drop i A) @ [A ! (i + n)]"
    using Suc.prems by (simp add: take_Suc_conv_app_nth)
  have eq: "take j ?A @ take n (drop i ?A) @ drop (j + n) ?A =
      take j A @ take (Suc n) (drop i A) @ drop (j + Suc n) A"
    by (simp only: t1 t2 t3 t4) simp
  have "backward_loop (Suc n) (Ptr (Some a) (i + Suc n)) (Ptr (Some a) (j + Suc n)) h =
      backward_loop n (Ptr (Some a) (i + n)) (Ptr (Some a) (j + n)) ?h"
    using ld st by (simp add: ptr_sub_def)
  also note ih
  finally show ?case by (simp only: eq list_update_overwrite)
qed


lemma Resize_grow_one:
  fixes h :: "'a::default heap"
  assumes inv: "invariant h v" and cap: "capacity v < 2 ^ 63"
  shows "\<exists>v1 h1 a B. Resize (wrap (size_v v + 1)) v h = Inr (v1, h1) \<and>
           size_v v1 = size_v v + 1 \<and> array v1 = Some a \<and> a < length h1 \<and>
           h1 ! a = Some B \<and> length B = capacity v1 \<and> size_v v + 1 \<le> length B \<and>
           take (size_v v) B = elements h v"
proof -
  from inv have le: "size_v v \<le> capacity v"
    by (simp add: invariant_def)
  with cap have w: "wrap (size_v v + 1) = size_v v + 1"
    by (simp add: wrap_small)
  show ?thesis
  proof (cases "size_v v + 1 < capacity v")
    case True
    with inv obtain a where a: "array v = Some a"
      by (cases "array v") (auto dest: invariant_None)
    with inv obtain A where A: "a < length h" "h ! a = Some A" "length A = capacity v"
      by (blast dest: invariant_Some)
    have "Resize (size_v v + 1) v h = Inr (v\<lparr>size_v := size_v v + 1\<rparr>, h)"
      using True by (simp add: Resize_def)
    moreover have "take (size_v v) A = elements h v"
      using a A by (simp add: elements_Some)
    ultimately show ?thesis
      using a A True w
      by (intro exI [of _ "v\<lparr>size_v := size_v v + 1\<rparr>"] exI [of _ h] exI [of _ a] exI [of _ A])
        simp
  next
    case False
    define nc where "nc = max (size_v v + 1) (wrap (capacity v * 2))"
    let ?B = "elements h v @ replicate (size_v v + 1 - size_v v) (Some default) @
                replicate (nc - (size_v v + 1)) None"
    let ?v = "\<lparr>capacity = nc, size_v = size_v v + 1, array = Some (length h)\<rparr>"
    from False le obtain h' where r: "Resize (size_v v + 1) v h = Inr (?v, h')"
        "length h' = Suc (length h)" "h' ! length h = Some ?B"
      unfolding nc_def using Resize_realloc [OF inv, of "size_v v + 1"] by auto
    have len: "length (elements h v) = size_v v"
      using inv by (rule length_elements)
    have nc: "size_v v + 1 \<le> nc"
      by (simp add: nc_def)
    have "length ?B = nc"
      using len nc by simp
    moreover have "take (size_v v) ?B = elements h v"
      using len by simp
    ultimately show ?thesis
      using r nc w
      by (intro exI [of _ ?v] exI [of _ h'] exI [of _ "length h"] exI [of _ ?B]) simp
  qed
qed

lemma Insert_move_inserts:
  fixes h :: "'a::default heap"
  assumes inv: "invariant h v" and cap: "capacity v < 2 ^ 63" and i: "i < size_v v"
  shows "\<exists>v' h'. Insert_move (ptr_add (begin_v v) i) x v h = Inr (ptr_add (begin_v v') i, v', h') \<and>
           size_v v' = size_v v + 1 \<and>
           elements h' v' = take i (elements h v) @ [Some x] @ drop i (elements h v) \<and>
           load h' (ptr_add (begin_v v') i) = Inr (Some x) \<and>
           invariant h' v'"
proof -
  let ?s = "size_v v"
  from Resize_grow_one [OF inv cap] obtain v1 h1 a B where
    r: "Resize (wrap (?s + 1)) v h = Inr (v1, h1)" and
    v1: "size_v v1 = ?s + 1" "array v1 = Some a" and
    B: "a < length h1" "h1 ! a = Some B" "length B = capacity v1" "?s + 1 \<le> length B" and
    els: "take ?s B = elements h v"
    by blast
  let ?B2 = "take (Suc i) B @ take (?s - i) (drop i B) @ drop (Suc i + (?s - i)) B"
  let ?h2 = "h1[a := Some ?B2]"
  let ?B3 = "?B2[i := Some x]"
  let ?h3 = "h1[a := Some ?B3]"
  have "backward_loop (?s - i) (Ptr (Some a) (i + (?s - i))) (Ptr (Some a) (Suc i + (?s - i))) h1 =
        Inr ?h2"
    using B i by (intro backward_loop_right) simp_all
  moreover have "i + (?s - i) = ?s" "Suc i + (?s - i) = Suc ?s"
    using i by simp_all
  ultimately have bl: "backward_loop (?s - i) (Ptr (Some a) ?s) (Ptr (Some a) (Suc ?s)) h1 = Inr ?h2"
    by simp
  have mb: "std_move_backward (Ptr (Some a) i) (Ptr (Some a) ?s) (Ptr (Some a) (Suc ?s)) h1 = Inr ?h2"
    using i bl by (simp add: std_move_backward_def)
  have len2: "length ?B2 = length B"
    using B i by simp
  have live2: "a < length ?h2" "?h2 ! a = Some ?B2"
    using B by simp_all
  have ld2: "load ?h2 (Ptr (Some a) i) = Inr (?B2 ! i)"
    using live2 len2 B i by (intro load_live) simp_all
  have st2: "store (Ptr (Some a) i) (Some x) ?h2 = Inr (?h2[a := Some ?B3])"
    using live2 len2 B i by (intro store_live) simp_all
  have ex: "std_exchange (Ptr (Some a) i) x ?h2 = Inr (?B2 ! i, ?h3)"
    by (simp only: std_exchange_def ld2 st2 bind_res.simps list_update_overwrite)
  have run: "Insert_move (Ptr (array v) i) x v h = Inr (Ptr (Some a) i, v1, ?h3)"
    using i r v1 mb ex
    by (simp add: Insert_move_def ptr_ge_def ptr_less_def std_distance_def begin_v_def end_v_def
        ptr_sub_def)
  have B3: "?B3 = take i B @ Some x # take (?s - i) (drop i B) @ drop (Suc ?s) B"
    using B i by (simp add: list_update_append take_Suc_conv_app_nth)
  have "take (?s + 1) ?B3 = take i B @ Some x # take (?s - i) (drop i B)"
    unfolding B3 using B i by (simp add: Suc_diff_le)
  also have "\<dots> = take i (elements h v) @ [Some x] @ drop i (elements h v)"
    using B i by (simp add: els [symmetric] drop_take min_def)
  finally have el: "elements ?h3 v1 = take i (elements h v) @ [Some x] @ drop i (elements h v)"
    using v1 B by (simp add: elements_def buffer_at_def)
  have "load ?h3 (Ptr (Some a) i) = Inr (?B3 ! i)"
    using B i len2 by (intro load_live) simp_all
  moreover have "?B3 ! i = Some x"
    unfolding B3 using B i by (simp add: nth_append)
  ultimately have ld: "load ?h3 (Ptr (Some a) i) = Inr (Some x)"
    by simp
  have inv': "invariant ?h3 v1"
    using v1 B len2 by (simp add: invariant_def allocated_slots_def buffer_at_def)
  show ?thesis
    using run v1 el ld inv'
    by (intro exI [of _ v1] exI [of _ ?h3]) (simp add: begin_v_def)
qed


lemma Insert_copy_in_place:
  fixes h :: "'a::default heap"
  assumes inv: "invariant h v" and cap: "capacity v < 2 ^ 63" and i: "i < size_v v"
    and room: "size_v v + 1 < capacity v"
  shows "\<exists>h' y. Insert (ptr_add (begin_v v) i) x v h =
             Inr (ptr_add (begin_v v) i, v\<lparr>size_v := size_v v + 2\<rparr>, h') \<and>
           elements h' (v\<lparr>size_v := size_v v + 2\<rparr>) =
             take i (elements h v) @ [Some x] @ drop i (elements h v) @ [y]"
proof -
  let ?s = "size_v v"
  from inv room obtain a where a: "array v = Some a"
    by (cases "array v") (auto dest: invariant_None)
  with inv obtain A where A: "a < length h" "h ! a = Some A" "length A = capacity v"
    by (blast dest: invariant_Some)
  have els: "elements h v = take ?s A"
    using a A by (simp add: elements_Some)
  from room cap have w: "wrap (?s + 1) = ?s + 1" "wrap (?s + 1 + 1) = ?s + 2"
    by (simp_all add: wrap_small)
  have r: "Resize (?s + 1) v h = Inr (v\<lparr>size_v := ?s + 1\<rparr>, h)"
    using room by (simp add: Resize_def)
  let ?B2 = "take (Suc i) A @ take (Suc ?s - i) (drop i A) @ drop (Suc i + (Suc ?s - i)) A"
  let ?h2 = "h[a := Some ?B2]"
  let ?B3 = "?B2[i := Some x]"
  let ?h3 = "h[a := Some ?B3]"
  have "backward_loop (Suc ?s - i) (Ptr (Some a) (i + (Suc ?s - i)))
          (Ptr (Some a) (Suc i + (Suc ?s - i))) h = Inr ?h2"
    using A i room by (intro backward_loop_right) simp_all
  moreover have "i + (Suc ?s - i) = Suc ?s" "Suc i + (Suc ?s - i) = Suc (Suc ?s)"
    using i by simp_all
  ultimately have bl: "backward_loop (Suc ?s - i) (Ptr (Some a) (Suc ?s))
      (Ptr (Some a) (Suc (Suc ?s))) h = Inr ?h2"
    by simp
  have mb: "std_move_backward (Ptr (Some a) i) (Ptr (Some a) (Suc ?s))
      (Ptr (Some a) (Suc (Suc ?s))) h = Inr ?h2"
    using i bl by (simp add: std_move_backward_def)
  have len2: "length ?B2 = length A"
    using A i room by simp
  have live2: "a < length ?h2" "?h2 ! a = Some ?B2"
    using A by simp_all
  have st2: "store (Ptr (Some a) i) (Some x) ?h2 = Inr (?h2[a := Some ?B3])"
    using live2 len2 A i room by (intro store_live) simp_all
  then have st: "store (Ptr (Some a) i) (Some x) ?h2 = Inr ?h3"
    by (simp only: list_update_overwrite)
  have run: "Insert (Ptr (Some a) i) x v h = Inr (Ptr (Some a) i, v\<lparr>size_v := ?s + 2\<rparr>, ?h3)"
    using i a r w mb st
    by (simp add: Insert_def ptr_ge_def ptr_less_def begin_v_def end_v_def)
  have B3: "?B3 = take i A @ Some x # take (Suc ?s - i) (drop i A) @ drop (Suc (Suc ?s)) A"
    using A i room by (simp add: list_update_append take_Suc_conv_app_nth)
  have e1: "take (?s + 2) ?B3 = take i A @ Some x # take (Suc ?s - i) (drop i A)"
    unfolding B3 using A i room by (simp add: Suc_diff_le)
  have e2: "take (Suc ?s - i) (drop i A) = take (?s - i) (drop i A) @ [A ! ?s]"
    using A i room by (simp add: Suc_diff_le take_Suc_conv_app_nth)
  have e3: "take i A @ Some x # (take (?s - i) (drop i A) @ [A ! ?s]) =
      take i (elements h v) @ [Some x] @ drop i (elements h v) @ [A ! ?s]"
    using A i room by (simp add: els drop_take min_def)
  have e0: "elements ?h3 (v\<lparr>size_v := ?s + 2\<rparr>) = take (?s + 2) ?B3"
    using a A by (simp add: elements_def buffer_at_def)
  have "elements ?h3 (v\<lparr>size_v := ?s + 2\<rparr>) =
      take i A @ Some x # take (Suc ?s - i) (drop i A)"
    using e0 e1 by (rule trans)
  also have "\<dots> = take i A @ Some x # (take (?s - i) (drop i A) @ [A ! ?s])"
    by (simp only: e2)
  also note e3
  finally have "elements ?h3 (v\<lparr>size_v := ?s + 2\<rparr>) =
      take i (elements h v) @ [Some x] @ drop i (elements h v) @ [A ! ?s]" .
  with run a show ?thesis
    by (intro exI [of _ ?h3] exI [of _ "A ! ?s"]) (simp add: begin_v_def)
qed

lemma Insert_copy_realloc:
  fixes h :: "'a::default heap"
  assumes inv: "invariant h v" and cap: "capacity v < 2 ^ 63" and i: "i < size_v v"
    and full: "capacity v \<le> size_v v + 1"
  shows "Insert (ptr_add (begin_v v) i) x v h = Inl UndefinedBehavior"
proof -
  let ?s = "size_v v"
  from inv have le: "?s \<le> capacity v"
    by (simp add: invariant_def)
  from inv i obtain a where a: "array v = Some a"
    by (cases "array v") (auto dest: invariant_None)
  with inv have al: "a < length h"
    by (blast dest: invariant_Some)
  from le cap have w: "wrap (?s + 1) = ?s + 1"
    by (simp add: wrap_small)
  from Resize_realloc [OF inv, of "?s + 1"] full obtain h' where
    r: "Resize (?s + 1) v h = Inr (\<lparr>capacity = max (?s + 1) (wrap (capacity v * 2)),
          size_v = ?s + 1, array = Some (length h)\<rparr>, h')"
    by auto
  show ?thesis
    using i a al r w
    by (simp add: Insert_def ptr_ge_def ptr_less_def begin_v_def end_v_def std_move_backward_def)
qed

text \<open>
  C1. The claim that both variants of \<^verbatim>\<open>Insert\<close> increase the size by exactly 1 and keep
  the other elements fails for the copy variant
  \<^verbatim>\<open>Insert(ConstIterator, const Type&)\<close>. The vector \<open>{5, 6}\<close> after
  \<^verbatim>\<open>Reserve(4)\<close> has size 2 and capacity 4; inserting 7 at \<open>begin() + 1\<close> leaves it with
  size 4 and the sequence 5, 7, 6, 0: \<^verbatim>\<open>Resize(size + 1)\<close> has already set the new size
  when \<^verbatim>\<open>++size\<close> runs, and \<^verbatim>\<open>std::move_backward\<close> moves the range up to the new
  \<^verbatim>\<open>end()\<close>. On the full vector \<open>{5, 6}\<close> (capacity 2) \<^verbatim>\<open>Resize\<close> reallocates and the
  saved iterator points into the released buffer. The move variant, on the same two
  vectors, gives size 3 and the sequence 5, 7, 6.
\<close>

theorem Insert_copy_grows_size_by_two:
  "SimpleVector_init [5, 6 :: int] [] =
     Inr (\<lparr>capacity = 2, size_v = 2, array = Some 0\<rparr>, [Some [Some 5, Some 6]]) \<and>
   Reserve (Reserve_proxy 4) \<lparr>capacity = 2, size_v = 2, array = Some 0\<rparr> [Some [Some 5, Some (6::int)]] =
     Inr (\<lparr>capacity = 4, size_v = 2, array = Some 1\<rparr>, [None, Some [Some 5, Some 6, Some 0, Some 0]]) \<and>
   Insert (ptr_add (begin_v \<lparr>capacity = 4, size_v = 2, array = Some 1\<rparr>) 1) 7
       \<lparr>capacity = 4, size_v = 2, array = Some 1\<rparr> [None, Some [Some 5, Some 6, Some 0, Some (0::int)]] =
     Inr (Ptr (Some 1) 1, \<lparr>capacity = 4, size_v = 4, array = Some 1\<rparr>,
          [None, Some [Some 5, Some 7, Some 6, Some 0]]) \<and>
   elements [None, Some [Some 5, Some 7, Some 6, Some (0::int)]]
       \<lparr>capacity = 4, size_v = 4, array = Some 1\<rparr> = [Some 5, Some 7, Some 6, Some 0] \<and>
   Insert (ptr_add (begin_v \<lparr>capacity = 2, size_v = 2, array = Some 0\<rparr>) 1) 7
       \<lparr>capacity = 2, size_v = 2, array = Some 0\<rparr> [Some [Some 5, Some (6::int)]] =
     Inl UndefinedBehavior \<and>
   Insert_move (ptr_add (begin_v \<lparr>capacity = 4, size_v = 2, array = Some 1\<rparr>) 1) 7
       \<lparr>capacity = 4, size_v = 2, array = Some 1\<rparr> [None, Some [Some 5, Some 6, Some 0, Some (0::int)]] =
     Inr (Ptr (Some 1) 1, \<lparr>capacity = 4, size_v = 3, array = Some 1\<rparr>,
          [None, Some [Some 5, Some 7, Some 6, Some 0]])"
  by (simp add: SimpleVector_init_def Reserve_def Reserve_proxy_def SimpleVector_size_def
      Insert_def Insert_move_def Resize_def elements_def default_int_def heap_eval)

text \<open>
  C3. \<^verbatim>\<open>PushBack(item)\<close> is \<^verbatim>\<open>Insert(end(), item)\<close>, and \<^verbatim>\<open>Insert\<close> asserts
  \<^verbatim>\<open>pos < end()\<close>: the position \<^verbatim>\<open>end()\<close> never satisfies the precondition, so on every
  vector, the empty one included, both variants of \<^verbatim>\<open>PushBack\<close> stop at the assertion.
\<close>

theorem PushBack_fails_assertion:
  "PushBack x v h = Inl AssertionFailed \<and> PushBack_move x v h = Inl AssertionFailed"
  by (simp add: PushBack_def PushBack_move_def Insert_def Insert_move_def ptr_less_def)

section \<open>Resize within the capacity\<close>

text \<open>
  C5. The claim that \<^verbatim>\<open>Resize\<close> value-initializes the slots it makes live within the
  capacity fails: the in-place branch only sets the size. The vector built by
  \<^verbatim>\<open>SimpleVector(4, 7)\<close>, shrunk by \<^verbatim>\<open>Resize(2)\<close> and grown by \<^verbatim>\<open>Resize(3)\<close>, has at
  index 2 the stale 7 and not the default value 0. The reallocating branch does write
  the default value: \<^verbatim>\<open>Resize(5)\<close> on the same shrunk vector gives 7, 7, 0, 0, 0.
\<close>

theorem Resize_in_place_keeps_stale_slot:
  "SimpleVector_fill 4 (7::int) [] =
     Inr (\<lparr>capacity = 4, size_v = 4, array = Some 0\<rparr>, [Some [Some 7, Some 7, Some 7, Some 7]]) \<and>
   Resize 2 \<lparr>capacity = 4, size_v = 4, array = Some 0\<rparr> [Some [Some 7, Some 7, Some 7, Some (7::int)]] =
     Inr (\<lparr>capacity = 4, size_v = 2, array = Some 0\<rparr>, [Some [Some 7, Some 7, Some 7, Some 7]]) \<and>
   Resize 3 \<lparr>capacity = 4, size_v = 2, array = Some 0\<rparr> [Some [Some 7, Some 7, Some 7, Some (7::int)]] =
     Inr (\<lparr>capacity = 4, size_v = 3, array = Some 0\<rparr>, [Some [Some 7, Some 7, Some 7, Some 7]]) \<and>
   At 2 \<lparr>capacity = 4, size_v = 3, array = Some 0\<rparr> = Inr (Ptr (Some 0) 2) \<and>
   load [Some [Some 7, Some 7, Some 7, Some (7::int)]] (Ptr (Some 0) 2) = Inr (Some 7) \<and>
   (default :: int) = 0 \<and>
   Resize 5 \<lparr>capacity = 4, size_v = 2, array = Some 0\<rparr> [Some [Some 7, Some 7, Some 7, Some (7::int)]] =
     Inr (\<lparr>capacity = 8, size_v = 5, array = Some 1\<rparr>,
          [None, Some [Some 7, Some 7, Some 0, Some 0, Some 0, None, None, None]])"
  by (simp add: SimpleVector_fill_def Resize_def At_def default_int_def heap_eval)

section \<open>Copy assignment and the invariant\<close>

text \<open>
  C2. The claim that after every public operation the capacity field is the number of
  slots of the owned buffer fails for copy assignment. \<^verbatim>\<open>operator=\<close> builds its
  temporary with \<^verbatim>\<open>rhs.size\<close> slots, swaps it in and then sets
  \<^verbatim>\<open>capacity = rhs.capacity\<close>. Assigning the vector made by
  \<^verbatim>\<open>SimpleVector(Reserve(4))\<close> (size 0, capacity 4) to an empty vector leaves the target
  with capacity 4 and the null buffer, which has no slot; a following \<^verbatim>\<open>Resize(1)\<close>
  grows in place and \<^verbatim>\<open>At(0)\<close> then refers to a slot of the null buffer.
\<close>

theorem assign_capacity_exceeds_buffer:
  "SimpleVector_reserve (Reserve_proxy 4) ([] :: int heap) =
     (\<lparr>capacity = 4, size_v = 0, array = Some 0\<rparr>, [Some [None, None, None, None]]) \<and>
   assign \<lparr>capacity = 4, size_v = 0, array = Some 0\<rparr> SimpleVector_default
       [Some [None, None, None, None :: int option]] =
     Inr (\<lparr>capacity = 4, size_v = 0, array = None\<rparr>, [Some [None, None, None, None]]) \<and>
   allocated_slots [Some [None, None, None, None :: int option]] None = Some 0 \<and>
   invariant [Some [None, None, None, None :: int option]]
       \<lparr>capacity = 4, size_v = 0, array = None\<rparr> = False \<and>
   Resize 1 \<lparr>capacity = 4, size_v = 0, array = None\<rparr> [Some [None, None, None, None :: int option]] =
     Inr (\<lparr>capacity = 4, size_v = 1, array = None\<rparr>, [Some [None, None, None, None]]) \<and>
   At 0 \<lparr>capacity = 4, size_v = 1, array = None\<rparr> = Inr (Ptr None 0) \<and>
   load [Some [None, None, None, None :: int option]] (Ptr None 0) = Inl UndefinedBehavior"
  by (simp add: SimpleVector_reserve_def Reserve_proxy_def assign_def SimpleVector_size_def
      SimpleVector_default_def invariant_def allocated_slots_def Resize_def At_def heap_eval)

end
